theory Spec2Isabelle
  imports Main "HOL-Library.AList"
begin

section \<open>JSON values and chunks\<close>

text \<open>
  The values that flow through the pipeline are parsed JSON.  An object keeps its keys in
  insertion order, as a JavaScript object does, so it is an association list.
\<close>

datatype json =
    JNull
  | JBool bool
  | JNum int
  | JStr string
  | JArr "json list"
  | JObj "(string \<times> json) list"

text \<open>
  A chunk (a dispatch record) is an object with exactly one key, the URI of a resource,
  mapped to the data of that resource: \<open>{ '/_pages/foo': {...} }\<close>.
  \<open>Object.keys(chunk)[0]\<close> is the first component of the pair.
\<close>

type_synonym chunk = "string \<times> json"

section \<open>The import command (\<open>src/lib/cmd/import.js\<close>)\<close>

subsection \<open>Errors, events of a stream, observable effects\<close>

text \<open>A JavaScript \<open>Error\<close>; the code reads only its \<open>message\<close>.\<close>

datatype error = Error (message: string)

text \<open>
  A highland stream carries values and errors.  An event of a stream of \<open>'a\<close> is
  \<open>Inl err\<close> for an error and \<open>Inr x\<close> for a value; a finite stream is the list of its
  events in the order they are pulled.
\<close>

type_synonym 'a event = "error + 'a"

text \<open>The part of \<open>argv\<close> the two import flows read.\<close>

record argv =
  verbose :: bool
  key :: "string option"
  concurrency :: nat

text \<open>
  What a run does to the outside world, in the order it does it: the calls of
  \<open>console.log\<close>, \<open>logger.*\<close>, \<open>process.stdout.write\<close>, \<open>rest.put\<close>
  and \<open>process.exit\<close>.
\<close>

datatype effect =
    ConsoleLogArgv argv
  | ConsoleLogError error
  | LoggerError string string
  | LoggerInfo string
  | LoggerInfoSingleUrl string string
  | LoggerDebug string
  | LoggerDebugDetails string
  | StdoutWrite string
  | StdoutWriteRed string
  | RestPut chunk string nat
  | ProcessExit nat

text \<open>
  The state of a run: the effects so far and, once \<open>process.exit\<close> has been called, the
  exit code.  Nothing happens after \<open>process.exit\<close>.
\<close>

record run =
  effects :: "effect list"
  exit_code :: "nat option"

definition emit :: "effect list \<Rightarrow> run \<Rightarrow> run" where
  "emit es st = st\<lparr>effects := effects st @ es\<rparr>"

definition start :: "effect list \<Rightarrow> run" where
  "start es = \<lparr>effects = es, exit_code = None\<rparr>"

subsection \<open>The modules the command requires\<close>

text \<open>
  \<open>import.js\<close> requires \<open>../io/agnostic-chunks\<close>, \<open>../utils/rest\<close>,
  \<open>../io/input-clay\<close> and \<open>../utils/config\<close>, none of which is among the sources.
  The functions it calls from them, and \<open>JSON.parse\<close>, are parameters of the model:
  \<^item> \<open>parse\<close> is \<open>JSON.parse\<close>: the parsed value, or the \<open>SyntaxError\<close> it throws;
  \<^item> \<open>validate\<close> is \<open>chunks.validate\<close>: the chunk, or the error it throws;
  \<^item> \<open>fromChunk\<close> and \<open>toChunk\<close> are \<open>chunks.fromChunk\<close> and \<open>chunks.toChunk\<close>;
  \<^item> \<open>put\<close> is \<open>rest.put(chunk, key, concurrency)\<close>: the stream it returns;
  \<^item> \<open>recursiveGet\<close> is \<open>clayInput.recursiveGet(url, concurrency)\<close>: the stream of
    fetched resources, a failed fetch being an error of that stream;
  \<^item> \<open>getKey\<close> is \<open>config.getKey\<close>.
\<close>

record modules =
  parse :: "string \<Rightarrow> error + json"
  validate :: "json \<Rightarrow> error + chunk"
  fromChunk :: "string \<Rightarrow> chunk \<Rightarrow> chunk"
  toChunk :: "string \<Rightarrow> json \<Rightarrow> chunk"
  put :: "chunk \<Rightarrow> string \<Rightarrow> nat \<Rightarrow> chunk event list"
  recursiveGet :: "string \<Rightarrow> nat \<Rightarrow> json event list"
  getKey :: "string option \<Rightarrow> string"

subsection \<open>\<open>pluralize\<close>\<close>

text \<open>
  \<open>pluralize('uri', n, true)\<close> is the count in decimal, a space, and \<open>uri\<close> for one,
  \<open>uris\<close> otherwise.
\<close>

fun show_nat :: "nat \<Rightarrow> string" where
  "show_nat n =
     (if n < 10 then [''0123456789'' ! n]
      else show_nat (n div 10) @ [''0123456789'' ! (n mod 10)])"

declare show_nat.simps [simp del]

definition pluralize_uri :: "nat \<Rightarrow> string" where
  "pluralize_uri n = show_nat n @ (if n = 1 then '' uri'' else '' uris'')"

subsection \<open>The functions of \<open>import.js\<close>\<close>

text \<open>
  \<^verbatim>\<open>function validationError(err) {
    logger.error('Unable to process input!', err.message);
    process.exit(1);
  }\<close>
\<close>

definition validationError :: "error \<Rightarrow> run \<Rightarrow> run" where
  "validationError err st =
     (emit [LoggerError ''Unable to process input!'' (message err), ProcessExit 1] st)
       \<lparr>exit_code := Some 1\<rparr>"

text \<open>
  \<^verbatim>\<open>function showProgress(prefix, argv) {
    return (chunk) => {
      if (argv.verbose) { logger.debug(Object.keys(chunk)[0]); }
      else { process.stdout.write('.'); }
      return chunk;
    };
  }\<close>
\<close>

definition showProgress :: "string \<Rightarrow> argv \<Rightarrow> chunk \<Rightarrow> run \<Rightarrow> run" where
  "showProgress prefix av c st =
     (if verbose av then emit [LoggerDebug (fst c)] st else emit [StdoutWrite ''.''] st)"

text \<open>
  \<^verbatim>\<open>function showCompleted(prefix, argv) {
    console.log(argv);
    return (results) => {
      process.stdout.write('\n'); // log BELOW the dots
      logger.info(`Imported ${pluralize('uri', results.length, true)}!`);
      logger.debug('Detailed Information:', _.map(results, (chunk) => Object.keys(chunk)[0]).join('\n'));
    };
  }\<close>
  \<open>showCompleted_init\<close> is the call \<open>showCompleted(prefix, argv)\<close>, made while the
  pipeline is built; \<open>showCompleted\<close> is the callback it returns, which \<open>toArray\<close> calls
  with every value that reached the end of the stream.
\<close>

definition showCompleted_init :: "string \<Rightarrow> argv \<Rightarrow> effect list" where
  "showCompleted_init prefix av = [ConsoleLogArgv av]"

fun join_lines :: "string list \<Rightarrow> string" where
  "join_lines [] = []"
| "join_lines [x] = x"
| "join_lines (x # y # ys) = x @ [CHR 0x0A] @ join_lines (y # ys)"

definition showCompleted :: "string \<Rightarrow> argv \<Rightarrow> chunk list \<Rightarrow> run \<Rightarrow> run" where
  "showCompleted prefix av results st =
     emit [StdoutWrite [CHR 0x0A],
           LoggerInfo (''Imported '' @ pluralize_uri (length results) @ ''!''),
           LoggerDebugDetails (join_lines (map fst results))] st"

text \<open>
  \<^verbatim>\<open>function importStream(prefix, argv) {
    return h(byline(process.stdin))
      .map(JSON.parse)
      .map(chunks.validate)
      .stopOnError(validationError)
      .map(showProgress(prefix, argv))
      .toArray(showCompleted(prefix, argv));
  }\<close>
  The stream is pulled one line at a time from its end (\<open>toArray\<close>), so each line goes
  through every stage before the next line is read.  \<open>map(f)\<close> turns an exception of
  \<open>f\<close> into an error of the stream and passes an error on; \<open>stopOnError(g)\<close> calls
  \<open>g\<close> on the first error and ends the stream, and here \<open>g\<close> exits the process.
  \<open>importStream_from\<close> is the loop over the lines not yet read; \<open>results\<close> are the
  values that have reached \<open>toArray\<close>.
\<close>

fun importStream_from ::
  "modules \<Rightarrow> string \<Rightarrow> argv \<Rightarrow> string list \<Rightarrow> chunk list \<Rightarrow> run \<Rightarrow> chunk list \<times> run" where
  "importStream_from m prefix av [] results st = (results, st)"
| "importStream_from m prefix av (line # rest) results st =
     (case parse m line of
        Inl err \<Rightarrow> (results, validationError err st)
      | Inr v \<Rightarrow>
          (case validate m v of
             Inl err \<Rightarrow> (results, validationError err st)
           | Inr c \<Rightarrow>
               importStream_from m prefix av rest (results @ [c])
                 (showProgress prefix av c st)))"

text \<open>
  \<open>toArray\<close> calls its callback when the stream has ended, unless the process has
  exited before.
\<close>

definition toArray :: "(chunk list \<Rightarrow> run \<Rightarrow> run) \<Rightarrow> chunk list \<times> run \<Rightarrow> run" where
  "toArray f p = (case p of (results, st) \<Rightarrow>
     (if exit_code st = None then f results st else st))"

definition importStream :: "modules \<Rightarrow> string \<Rightarrow> argv \<Rightarrow> string list \<Rightarrow> run" where
  "importStream m prefix av stdin =
     toArray (showCompleted prefix av)
       (importStream_from m prefix av stdin [] (start (showCompleted_init prefix av)))"

text \<open>
  \<^verbatim>\<open>function importSingleUrl(url, prefix, argv) {
    const key = config.getKey(argv.key),
      fakeChunk = chunks.toChunk(url, {}),
      fakeNewChunk = chunks.fromChunk(prefix, fakeChunk),
      newUrl = Object.keys(fakeNewChunk)[0];

    logger.info('Importing single URL:', `\n${url}\n(three arrows)\n${newUrl}`);
    return clayInput.recursiveGet(url, argv.concurrency)
      .errors((err, push) => { console.log(err); push(err); })
      .map(chunks.validate)
      .stopOnError(validationError)
      .map(chunks.fromChunk.bind(null, prefix))
      .flatMap((chunk) => rest.put(chunk, key, argv.concurrency))
      .errors((e) => { console.log(e); process.stdout.write(chalk.red('.')); })
      .map(showProgress(prefix, argv))
      .toArray(showCompleted(prefix, argv));
  }\<close>
  \<open>afterPut\<close> is the tail of the pipeline behind \<open>flatMap\<close>, applied to the events of
  the stream one \<open>rest.put\<close> returns: the second \<open>errors\<close> handler logs an error, writes
  a red dot and, as it never calls \<open>push\<close>, drops it; a value makes progress and is
  collected by \<open>toArray\<close>.
\<close>

fun afterPut ::
  "string \<Rightarrow> argv \<Rightarrow> chunk event list \<Rightarrow> chunk list \<Rightarrow> run \<Rightarrow> chunk list \<times> run" where
  "afterPut prefix av [] results st = (results, st)"
| "afterPut prefix av (Inl e # evs) results st =
     afterPut prefix av evs results (emit [ConsoleLogError e, StdoutWriteRed ''.''] st)"
| "afterPut prefix av (Inr r # evs) results st =
     afterPut prefix av evs (results @ [r]) (showProgress prefix av r st)"

text \<open>
  \<open>importSingleUrl_from\<close> is the loop over the events of the crawl not yet pulled.
  An error of the crawl is logged by the first \<open>errors\<close> handler, which pushes it back
  on the stream; \<open>map(chunks.validate)\<close> passes it on and \<open>stopOnError\<close> hands it to
  \<open>validationError\<close>.  A fetched resource is validated, rewritten by \<open>fromChunk\<close> and
  put; \<open>flatMap\<close> reads the stream of one put to its end before the next resource is
  pulled.
\<close>

fun importSingleUrl_from ::
  "modules \<Rightarrow> string \<Rightarrow> argv \<Rightarrow> json event list \<Rightarrow> chunk list \<Rightarrow> run \<Rightarrow> chunk list \<times> run" where
  "importSingleUrl_from m prefix av [] results st = (results, st)"
| "importSingleUrl_from m prefix av (Inl err # rest) results st =
     (results, validationError err (emit [ConsoleLogError err] st))"
| "importSingleUrl_from m prefix av (Inr v # rest) results st =
     (case validate m v of
        Inl err \<Rightarrow> (results, validationError err st)
      | Inr c \<Rightarrow>
          (let c' = fromChunk m prefix c;
               k = getKey m (key av);
               st' = emit [RestPut c' k (concurrency av)] st;
               (results', st'') = afterPut prefix av (put m c' k (concurrency av)) results st'
           in importSingleUrl_from m prefix av rest results' st''))"

definition importSingleUrl :: "modules \<Rightarrow> string \<Rightarrow> string \<Rightarrow> argv \<Rightarrow> run" where
  "importSingleUrl m url prefix av =
     (let newUrl = fst (fromChunk m prefix (toChunk m url (JObj [])))
      in toArray (showCompleted prefix av)
           (importSingleUrl_from m prefix av (recursiveGet m url (concurrency av)) []
              (start (LoggerInfoSingleUrl url newUrl # showCompleted_init prefix av))))"

subsection \<open>Vocabulary for the statements about the import flows\<close>

text \<open>
  The two \<open>map\<close> stages at the head of \<open>importStream\<close>, taken together: what becomes of
  one line of input.
\<close>

definition read_line :: "modules \<Rightarrow> string \<Rightarrow> error + chunk" where
  "read_line m l = (case parse m l of Inl e \<Rightarrow> Inl e | Inr v \<Rightarrow> validate m v)"

text \<open>The progress mark of one value: its key in verbose mode, a dot otherwise.\<close>

definition progress :: "argv \<Rightarrow> chunk \<Rightarrow> effect" where
  "progress av c = (if verbose av then LoggerDebug (fst c) else StdoutWrite ''.'')"

text \<open>The values and the errors of a finite stream.\<close>

fun values_of :: "'a event list \<Rightarrow> 'a list" where
  "values_of [] = []"
| "values_of (Inl e # evs) = values_of evs"
| "values_of (Inr x # evs) = x # values_of evs"

fun errors_of :: "'a event list \<Rightarrow> error list" where
  "errors_of [] = []"
| "errors_of (Inl e # evs) = e # errors_of evs"
| "errors_of (Inr x # evs) = errors_of evs"

text \<open>
  The outcome of writing one validated chunk: the events of the stream \<open>rest.put\<close>
  returns for it.  What the run shows for one outcome, and for one write.
\<close>

definition outcomes :: "modules \<Rightarrow> string \<Rightarrow> argv \<Rightarrow> chunk \<Rightarrow> chunk event list" where
  "outcomes m prefix av c = put m (fromChunk m prefix c) (getKey m (key av)) (concurrency av)"

fun outcome_effects :: "argv \<Rightarrow> chunk event \<Rightarrow> effect list" where
  "outcome_effects av (Inl e) = [ConsoleLogError e, StdoutWriteRed ''.'']"
| "outcome_effects av (Inr r) = [progress av r]"

definition write_effects :: "modules \<Rightarrow> string \<Rightarrow> argv \<Rightarrow> chunk \<Rightarrow> effect list" where
  "write_effects m prefix av c =
     RestPut (fromChunk m prefix c) (getKey m (key av)) (concurrency av)
       # concat (map (outcome_effects av) (outcomes m prefix av c))"

subsection \<open>A concrete setting\<close>

text \<open>
  Stand-ins for the required modules, to run the flows on concrete input: a parser that
  knows three lines, a validator that accepts an object with exactly one key, a
  \<open>fromChunk\<close> that puts the prefix before the key, a store that rejects
  \<open>/_pages/b\<close>, and two crawls, of which the one of \<open>prod/_pages/x\<close> fails on its
  second resource.
\<close>

definition line_a :: string where
  "line_a = ''{'' @ [CHR 0x22] @ ''/_pages/a'' @ [CHR 0x22] @ '':1}''"

definition line_b :: string where
  "line_b = ''{'' @ [CHR 0x22] @ ''/_pages/b'' @ [CHR 0x22] @ '':2}''"

definition example_modules :: modules where
  "example_modules =
     \<lparr>parse = (\<lambda>s.
        if s = line_a then Inr (JObj [(''/_pages/a'', JNum 1)])
        else if s = line_b then Inr (JObj [(''/_pages/b'', JNum 2)])
        else if s = ''[]'' then Inr (JArr [])
        else Inl (Error ''Unexpected token'')),
      validate = (\<lambda>v. case v of
          JObj [(k, d)] \<Rightarrow> Inr (k, d)
        | _ \<Rightarrow> Inl (Error ''invalid chunk'')),
      fromChunk = (\<lambda>prefix c. (prefix @ fst c, snd c)),
      toChunk = (\<lambda>url d. (url, d)),
      put = (\<lambda>c k n.
        if fst c = ''local/_pages/b'' then [Inl (Error ''500'')] else [Inr c]),
      recursiveGet = (\<lambda>url n.
        if url = ''prod/_pages/x''
        then [Inr (JObj [(''/_pages/a'', JNum 1)]), Inl (Error ''404''),
              Inr (JObj [(''/_pages/c'', JNum 3)])]
        else [Inr (JObj [(''/_pages/a'', JNum 1)]), Inr (JObj [(''/_pages/b'', JNum 2)]),
              Inr (JObj [(''/_pages/c'', JNum 3)])]),
      getKey = (\<lambda>k. case k of Some s \<Rightarrow> s | None \<Rightarrow> [])\<rparr>"

definition example_argv :: argv where
  "example_argv = \<lparr>verbose = False, key = Some ''secret'', concurrency = 1\<rparr>"

section \<open>The transcoder (\<open>toBootstrap\<close>, \<open>toDispatch\<close>)\<close>

text \<open>
  The test file \<open>src/unnamed/part_000\<close> requires \<open>./formatting\<close> and tests its
  \<open>toDispatch\<close> and \<open>toBootstrap\<close>; the module itself is not among the sources.  The
  definitions of this section model the parts of it that the statements below are about
  from the specification (section 4.1) and from what the tests expect; the test data is
  translated from the test file as it stands.
\<close>

subsection \<open>Resource URIs\<close>

type_synonym fields = "(string \<times> json) list"

text \<open>
  Modelled from the spec: string helpers for reading a URI, which \<open>formatting.js\<close> (not
  among the sources) must do in some way.  \<open>strip_prefix p s\<close> is what is left of \<open>s\<close>
  behind the prefix \<open>p\<close>, if \<open>s\<close> starts with it.
\<close>

fun strip_prefix :: "string \<Rightarrow> string \<Rightarrow> string option" where
  "strip_prefix [] s = Some s"
| "strip_prefix (p # ps) [] = None"
| "strip_prefix (p # ps) (c # cs) = (if p = c then strip_prefix ps cs else None)"

text \<open>
  Modelled from the spec: \<open>split_on sep s\<close> cuts \<open>s\<close> at the first occurrence of
  \<open>sep\<close> (a helper of the model of \<open>formatting.js\<close>, which is not among the sources).
\<close>

fun split_on :: "string \<Rightarrow> string \<Rightarrow> (string \<times> string) option" where
  "split_on sep [] = (case strip_prefix sep [] of Some r \<Rightarrow> Some ([], r) | None \<Rightarrow> None)"
| "split_on sep (c # cs) =
     (case strip_prefix sep (c # cs) of
        Some r \<Rightarrow> Some ([], r)
      | None \<Rightarrow> (case split_on sep cs of Some (a, b) \<Rightarrow> Some (c # a, b) | None \<Rightarrow> None))"

text \<open>
  Modelled from the spec: ``strips the same redundant leading separator'' (4.1, pages);
  the code that does it is in \<open>formatting.js\<close>, not among the sources.
\<close>

fun strip_slash :: "string \<Rightarrow> string" where
  "strip_slash (c # cs) = (if c = CHR ''/'' then cs else c # cs)"
| "strip_slash [] = []"

text \<open>
  Modelled from the spec: the four kinds of resource a dispatch record can be about
  (3, ``Invariant across both forms''): a component of a type, or an instance of it; a
  page; a user; an entry of any other root collection.  \<open>formatting.js\<close>, which tells them
  apart, is not among the sources.
\<close>

datatype resource =
    Component string "string option"
  | Page string
  | User string
  | Entry string string

text \<open>
  Modelled from the spec: ``Classifies each record's URI by its root segment''
  (\<open>toBootstrap\<close> in 4.1; \<open>formatting.js\<close> is not among the sources):
  \<open>/_components/{type}\<close> and \<open>/_components/{type}/instances/{name}\<close>;
  \<open>/_pages/{key}\<close>, the key without a leading separator; \<open>/_users/{encodedKey}\<close>; any
  other \<open>/{collectionName}/{entryKey}\<close>, ``re-adding the leading separator if the entry
  key is empty''.  The spec does not say what becomes of a record whose key has no root
  segment; the model leaves such a record out (\<open>None\<close>).
\<close>

definition classify :: "string \<Rightarrow> resource option" where
  "classify uri =
     (case strip_prefix ''/'' uri of
        None \<Rightarrow> None
      | Some s \<Rightarrow>
          (case split_on ''/'' s of
             None \<Rightarrow> None
           | Some (root, rest) \<Rightarrow>
               if root = ''_components'' then
                 (case split_on ''/instances/'' rest of
                    None \<Rightarrow> Some (Component rest None)
                  | Some (t, i) \<Rightarrow> Some (Component t (Some i)))
               else if root = ''_pages'' then Some (Page (strip_slash rest))
               else if root = ''_users'' then Some (User rest)
               else Some (Entry root (if rest = [] then ''/'' else rest))))"

subsection \<open>References\<close>

text \<open>
  Modelled from the spec: a component reference is an object ``carrying a \<open>_ref\<close> URI
  plus, only in certain contexts, denormalized copies of the referenced node's fields''
  (3).  \<open>ref_of\<close> is the URI of an object that is a reference.  The code that reads
  references is in \<open>formatting.js\<close>, not among the sources.
\<close>

definition ref_of :: "fields \<Rightarrow> string option" where
  "ref_of fs = (case map_of fs ''_ref'' of Some (JStr u) \<Rightarrow> Some u | _ \<Rightarrow> None)"

text \<open>
  Modelled from the spec: \<open>toBootstrap\<close> reduces ``all component references \<dots> back to
  \<open>{_ref}\<close> only'', and ``stripping is unconditional per-record'' (4.1); the tests
  expect it of a reference inside a list (\<open>content: [{_ref: \<dots>}]\<close>) and of one that
  is the value of a field (\<open>child: {_ref: \<dots>}\<close>).  \<open>formatting.js\<close>, which does it, is
  not among the sources.
\<close>

fun strip_refs :: "json \<Rightarrow> json" where
  "strip_refs (JObj fs) =
     (case ref_of fs of
        Some u \<Rightarrow> JObj [(''_ref'', JStr u)]
      | None \<Rightarrow> JObj (map (\<lambda>(k, v). (k, strip_refs v)) fs))"
| "strip_refs (JArr xs) = JArr (map strip_refs xs)"
| "strip_refs v = v"

text \<open>
  Modelled from the spec: what \<open>toBootstrap\<close> does with the denormalized fields of a
  reference is not in the spec's text; it is what the tests of \<open>part_000\<close> expect
  (lines 148--153 and 202--226): the fields a reference carries beside \<open>_ref\<close> become
  the data of the component the reference points to, its own references stripped in
  turn.  \<open>denormalized v\<close> lists, in the order of the document, the URI and the data of
  every reference in \<open>v\<close> that carries such fields.  \<open>formatting.js\<close>, which does it, is
  not among the sources.
\<close>

fun denormalized :: "json \<Rightarrow> (string \<times> json) list" where
  "denormalized (JObj fs) =
     (case ref_of fs of
        Some u \<Rightarrow>
          (let own = AList.delete ''_ref'' fs
           in (if own = [] then [] else [(u, JObj (map (\<lambda>(k, v). (k, strip_refs v)) own))])
              @ concat (map (\<lambda>(k, v). if k = ''_ref'' then [] else denormalized v) fs))
      | None \<Rightarrow> concat (map (\<lambda>(k, v). denormalized v) fs))"
| "denormalized (JArr xs) = concat (map denormalized xs)"
| "denormalized v = []"

subsection \<open>The bootstrap document that \<open>toBootstrap\<close> builds\<close>

text \<open>
  Modelled from the spec: an entry of \<open>_components\<close> is ``base fields + optional
  \<open>instances\<close> (mapping from instance name \<rightarrow> instance fields)'' (3).  The type is part of
  the model of \<open>formatting.js\<close>, which is not among the sources.
\<close>

record component =
  base :: json
  instances :: "string \<rightharpoonup> json"

text \<open>
  Modelled from the spec: ``a single nested object with up to four root collections''
  (3): \<open>_components\<close>, \<open>_pages\<close>, \<open>_users\<close> and the arbitrary collections.  The tests
  compare documents with \<open>toEqual\<close>, which does not see the order of keys, so the
  mappings are maps; \<open>_users\<close> is a sequence.  An arbitrary collection that is absent and
  one that is empty are the same (\<open>collections d name = Map.empty\<close>).  The type is part of
  the model of \<open>formatting.js\<close>, which is not among the sources.
\<close>

record bootstrap =
  components :: "string \<rightharpoonup> component"
  pages :: "string \<rightharpoonup> json"
  users :: "json list"
  collections :: "string \<Rightarrow> (string \<rightharpoonup> json)"

text \<open>
  Modelled from the spec: ``\<open>toBootstrap\<close> of an empty sequence yields an empty
  document'' (8); \<open>formatting.js\<close> is not among the sources.
\<close>

definition empty_bootstrap :: bootstrap where
  "empty_bootstrap =
     \<lparr>components = Map.empty, pages = Map.empty, users = [], collections = (\<lambda>c. Map.empty)\<rparr>"

text \<open>
  Modelled from the spec: ``Accumulates into the growing \<open>_components\<close> mapping, creating
  the type's instances sub-mapping on first use'' (4.1); \<open>formatting.js\<close> is not among the
  sources.  The data of the type itself replaces its base fields and keeps its instances;
  the data of an instance is stored under its name.
\<close>

fun add_component :: "string \<Rightarrow> string option \<Rightarrow> json \<Rightarrow> bootstrap \<Rightarrow> bootstrap" where
  "add_component t None v d =
     d\<lparr>components := (components d)(t \<mapsto>
        (case components d t of
           None \<Rightarrow> \<lparr>base = v, instances = Map.empty\<rparr>
         | Some c \<Rightarrow> c\<lparr>base := v\<rparr>))\<rparr>"
| "add_component t (Some i) v d =
     d\<lparr>components := (components d)(t \<mapsto>
        (case components d t of
           None \<Rightarrow> \<lparr>base = JObj [], instances = [i \<mapsto> v]\<rparr>
         | Some c \<Rightarrow> c\<lparr>instances := (instances c)(i \<mapsto> v)\<rparr>))\<rparr>"

text \<open>
  Modelled from the spec: the data a reference carried goes to the entry of the
  component its URI names (tests of \<open>part_000\<close>, lines 148--153 and 202--226); a
  reference to anything else adds nothing.  \<open>formatting.js\<close> is not among the sources.
\<close>

definition add_denormalized :: "string \<times> json \<Rightarrow> bootstrap \<Rightarrow> bootstrap" where
  "add_denormalized r d =
     (case classify (fst r) of
        Some (Component t i) \<Rightarrow> add_component t i (snd r) d
      | _ \<Rightarrow> d)"

text \<open>
  Modelled from the spec: the rename of the legacy field of a page (4.1).  The test of
  \<open>part_000\<close>, lines 155--182, fixes its direction in \<open>toBootstrap\<close>: a record with
  \<open>url\<close> gives a page with \<open>customUrl\<close>.  \<open>formatting.js\<close> is not among the sources.
\<close>

fun rename_legacy :: "json \<Rightarrow> json" where
  "rename_legacy (JObj fs) =
     (case map_of fs ''url'' of
        Some u \<Rightarrow> JObj (AList.update ''customUrl'' u (AList.delete ''url'' fs))
      | None \<Rightarrow> JObj fs)"
| "rename_legacy v = v"

text \<open>
  Modelled from the spec: what \<open>toBootstrap\<close> does with one dispatch record (4.1), by the
  kind of its URI: a component or instance is stored with its references stripped, and
  then the data its references carried; a page is stored under its key with the legacy
  field renamed; a user is appended ``in arrival order'', with ``no deduplication''; any
  other entry is inserted into its collection.  \<open>formatting.js\<close> is not among the
  sources.
\<close>

definition toBootstrap_step :: "chunk \<Rightarrow> bootstrap \<Rightarrow> bootstrap" where
  "toBootstrap_step r d =
     (case classify (fst r) of
        None \<Rightarrow> d
      | Some (Component t i) \<Rightarrow>
          fold add_denormalized (denormalized (snd r)) (add_component t i (strip_refs (snd r)) d)
      | Some (Page k) \<Rightarrow> d\<lparr>pages := (pages d)(k \<mapsto> rename_legacy (snd r))\<rparr>
      | Some (User k) \<Rightarrow> d\<lparr>users := users d @ [snd r]\<rparr>
      | Some (Entry c k) \<Rightarrow>
          d\<lparr>collections := (collections d)(c := (collections d c)(k \<mapsto> snd r))\<rparr>)"

text \<open>
  Modelled from the spec: \<open>toBootstrap(sequence of dispatch records) \<rightarrow> one bootstrap
  document\<close>, a fold over the records in the order they arrive (4.1);
  \<open>formatting.js\<close> is not among the sources.
\<close>

definition toBootstrap :: "chunk list \<Rightarrow> bootstrap" where
  "toBootstrap rs = fold toBootstrap_step rs empty_bootstrap"

subsection \<open>\<open>toDispatch\<close> on the arbitrary collections\<close>

text \<open>
  Modelled from the spec: ``for each entry, emit \<open>/{collectionName}/{entryKey}\<close> \<rightarrow>
  value; an entry key equal to the path separator itself collapses to an empty
  remainder'' (\<open>toDispatch\<close> in 4.1; \<open>formatting.js\<close> is not among the sources).
\<close>

definition toDispatch_entry :: "string \<Rightarrow> string \<times> json \<Rightarrow> chunk" where
  "toDispatch_entry name e =
     (''/'' @ name @ ''/'' @ (if fst e = ''/'' then [] else fst e), snd e)"

text \<open>
  Modelled from the spec: the records \<open>toDispatch\<close> emits for the arbitrary collections
  of a document, given with their entries in the order of declaration (4.1: ``Ordering
  is deterministic and matches declaration order of the input'').  The other root
  collections are not modelled.  \<open>formatting.js\<close> is not among the sources.
\<close>

definition toDispatch_arbitrary :: "(string \<times> fields) list \<Rightarrow> chunk list" where
  "toDispatch_arbitrary cols =
     concat (map (\<lambda>col. map (toDispatch_entry (fst col)) (snd col)) cols)"

subsection \<open>Vocabulary for the statements about the transcoder\<close>

text \<open>The data of a component (\<open>i = None\<close>) or of one of its instances in a document.\<close>

definition component_at :: "bootstrap \<Rightarrow> string \<Rightarrow> string option \<Rightarrow> json option" where
  "component_at d t i =
     (case components d t of
        None \<Rightarrow> None
      | Some c \<Rightarrow> (case i of None \<Rightarrow> Some (base c) | Some n \<Rightarrow> instances c n))"

text \<open>
  A place in a JSON value: the keys and indices that lead to it.  \<open>value_at v p\<close> is the
  value at the place \<open>p\<close> of \<open>v\<close>, if there is one.
\<close>

datatype place = Key string | Index nat

fun value_at :: "json \<Rightarrow> place list \<Rightarrow> json option" where
  "value_at v [] = Some v"
| "value_at (JObj fs) (Key k # p) =
     (case map_of fs k of Some x \<Rightarrow> value_at x p | None \<Rightarrow> None)"
| "value_at (JArr xs) (Index n # p) = (if n < length xs then value_at (xs ! n) p else None)"
| "value_at v (s # p) = None"

text \<open>
  The place \<open>p\<close> of \<open>v\<close> exists and lies inside no reference: none of the objects on the
  way to it is a reference.
\<close>

fun outermost :: "json \<Rightarrow> place list \<Rightarrow> bool" where
  "outermost v [] = True"
| "outermost (JObj fs) (Key k # p) =
     (ref_of fs = None \<and> (case map_of fs k of Some x \<Rightarrow> outermost x p | None \<Rightarrow> False))"
| "outermost (JArr xs) (Index n # p) = (n < length xs \<and> outermost (xs ! n) p)"
| "outermost v (s # p) = False"

text \<open>
  All the references that occur in a value, at any depth, each as the list of its fields;
  the \<open>_ref\<close> field of a reference is its URI and holds no further reference.
\<close>

fun ref_objects :: "json \<Rightarrow> fields list" where
  "ref_objects (JObj fs) =
     (case ref_of fs of
        Some u \<Rightarrow> fs # concat (map (\<lambda>(k, x). if k = ''_ref'' then [] else ref_objects x) fs)
      | None \<Rightarrow> concat (map (\<lambda>(k, x). ref_objects x) fs))"
| "ref_objects (JArr xs) = concat (map ref_objects xs)"
| "ref_objects v = []"

text \<open>A reference in bootstrap form: it carries \<open>_ref\<close> and nothing else.\<close>

definition bare :: "fields \<Rightarrow> bool" where
  "bare fs \<longleftrightarrow> (case fs of [(k, JStr u)] \<Rightarrow> k = ''_ref'' | _ \<Rightarrow> False)"

text \<open>The reference \<open>fs\<close> points to the component \<open>t\<close> (\<open>i = None\<close>) or to its instance \<open>i\<close>.\<close>

definition points_to :: "fields \<Rightarrow> string \<Rightarrow> string option \<Rightarrow> bool" where
  "points_to fs t i \<longleftrightarrow>
     (case ref_of fs of Some u \<Rightarrow> classify u = Some (Component t i) | None \<Rightarrow> False)"

text \<open>
  A dispatch record touches the entry of a component (or instance) when it is a record of
  a component and either is the record of that very entry or holds a reference to it that
  is not bare.
\<close>

definition touches :: "chunk \<Rightarrow> string \<Rightarrow> string option \<Rightarrow> bool" where
  "touches r t i \<longleftrightarrow>
     (case classify (fst r) of
        Some (Component t0 i0) \<Rightarrow>
          (t0 = t \<and> i0 = i)
          \<or> list_ex (\<lambda>fs. \<not> bare fs \<and> points_to fs t i) (ref_objects (snd r))
      | _ \<Rightarrow> False)"

text \<open>The arbitrary collections of a document written as in JavaScript, as a mapping.\<close>

definition collections_of :: "(string \<times> fields) list \<Rightarrow> string \<Rightarrow> (string \<rightharpoonup> json)" where
  "collections_of cols name =
     (case map_of cols name of None \<Rightarrow> Map.empty | Some es \<Rightarrow> map_of es)"

text \<open>
  Well-formed arbitrary collections: the name of a collection has no path separator and is
  none of the three other roots; as keys of one JavaScript object, the names are distinct,
  and so are the keys of the entries of a collection; no entry has the empty key (its URI
  would be that of the entry \<open>/\<close>).
\<close>

definition wf_collection :: "string \<times> fields \<Rightarrow> bool" where
  "wf_collection col \<longleftrightarrow>
     CHR ''/'' \<notin> set (fst col) \<and> fst col \<notin> {''_components'', ''_pages'', ''_users''}
     \<and> distinct (map fst (snd col)) \<and> [] \<notin> fst ` set (snd col)"

definition wf_collections :: "(string \<times> fields) list \<Rightarrow> bool" where
  "wf_collections cols \<longleftrightarrow> distinct (map fst cols) \<and> list_all wf_collection cols"

subsection \<open>The data of the tests (\<open>src/unnamed/part_000\<close>)\<close>

text \<open>Lines 9--37, as the document \<open>toBootstrap\<close> is expected to build.\<close>

definition bootstrapComponents :: bootstrap where
  "bootstrapComponents = empty_bootstrap\<lparr>components :=
     [''article'' \<mapsto>
        \<lparr>base = JObj [(''title'', JStr ''Empty''),
                      (''content'', JArr [JObj [(''_ref'', JStr ''/_components/paragraph'')]])],
         instances = [''foo'' \<mapsto>
           JObj [(''title'', JStr ''My Article''),
                 (''content'',
                    JArr [JObj [(''_ref'', JStr ''/_components/paragraph/instances/bar'')]])]]\<rparr>,
      ''paragraph'' \<mapsto>
        \<lparr>base = JObj [(''text'', JStr ''empty'')],
         instances = [''bar'' \<mapsto> JObj [(''text'', JStr ''lorem ipsum'')]]\<rparr>,
      ''image'' \<mapsto>
        \<lparr>base = JObj [(''url'', JStr ''domain.com/image'')], instances = Map.empty\<rparr>]\<rparr>"

text \<open>Lines 61--68.\<close>

definition bootstrapArbitrary :: "(string \<times> fields) list" where
  "bootstrapArbitrary =
     [(''_lists'', [(''a'', JArr [JNum 1, JNum 2, JNum 3])]),
      (''_uris'', [(''/'', JStr ''/_pages/index'')])]"

text \<open>Lines 69--89.\<close>

definition componentDispatch :: "chunk list" where
  "componentDispatch =
     [(''/_components/article'',
         JObj [(''title'', JStr ''Empty''),
               (''content'', JArr [JObj [(''_ref'', JStr ''/_components/paragraph''),
                                         (''text'', JStr ''empty'')]])]),
      (''/_components/article/instances/foo'',
         JObj [(''title'', JStr ''My Article''),
               (''content'',
                  JArr [JObj [(''_ref'', JStr ''/_components/paragraph/instances/bar''),
                              (''text'', JStr ''lorem ipsum'')]])]),
      (''/_components/image'', JObj [(''url'', JStr ''domain.com/image'')])]"

text \<open>Lines 102--108.\<close>

definition userDispatch :: "chunk list" where
  "userDispatch =
     [(''/_users/Zm9vQGdvb2dsZQ=='',
         JObj [(''username'', JStr ''foo''), (''provider'', JStr ''google''),
               (''auth'', JStr ''admin'')])]"

text \<open>Lines 109--113.\<close>

definition arbitraryDispatch :: "chunk list" where
  "arbitraryDispatch =
     [(''/_lists/a'', JArr [JNum 1, JNum 2, JNum 3]),
      (''/_uris/'', JStr ''/_pages/index'')]"

text \<open>Lines 156--166, the input of the test of pages.\<close>

definition legacyPageDispatch :: "chunk list" where
  "legacyPageDispatch =
     [(''/_pages/foo'',
         JObj [(''layout'', JStr ''/_components/layout/instances/bar''),
               (''main'', JArr [JStr ''/_components/foo/instances/bar''])]),
      (''/_pages/bar'',
         JObj [(''layout'', JStr ''/_components/layout/instances/bar''),
               (''main'', JArr [JStr ''/_components/foo/instances/bar'']),
               (''url'', JStr ''http://google.com'')])]"

text \<open>Lines 203--209, the input of the test of mixed dispatches.\<close>

definition mixedDispatch :: "chunk list" where
  "mixedDispatch =
     [(''/_components/a'',
         JObj [(''child'', JObj [(''_ref'', JStr ''/_components/b''), (''a'', JStr ''b'')])]),
      (''/_users/abc'',
         JObj [(''username'', JStr ''a''), (''provider'', JStr ''b''),
               (''auth'', JStr ''admin'')]),
      (''/_users/def'',
         JObj [(''username'', JStr ''d''), (''provider'', JStr ''e''),
               (''auth'', JStr ''admin'')])]"

section \<open>Properties of the import flows\<close>

lemma showProgress_emit: "showProgress prefix av c st = emit [progress av c] st"
  by (simp add: showProgress_def progress_def)

lemma emit_emit: "emit es (emit ds st) = emit (ds @ es) st"
  by (simp add: emit_def)

lemma emit_Nil: "emit [] st = st"
  by (simp add: emit_def)

lemma values_of_append: "values_of (xs @ ys) = values_of xs @ values_of ys"
  by (induction xs rule: values_of.induct) simp_all

lemma errors_of_append: "errors_of (xs @ ys) = errors_of xs @ errors_of ys"
  by (induction xs rule: errors_of.induct) simp_all

subsection \<open>The record stream\<close>

lemma importStream_from_accepts:
  "map (read_line m) pre = map Inr cs \<Longrightarrow>
   importStream_from m prefix av (pre @ rest) results st =
   importStream_from m prefix av rest (results @ cs) (emit (map (progress av) cs) st)"
proof (induction pre arbitrary: cs results st)
  case Nil
  then show ?case by (simp add: emit_Nil)
next
  case (Cons l pre)
  from Cons.prems obtain c cs' where cs: "cs = c # cs'" "read_line m l = Inr c"
    "map (read_line m) pre = map Inr cs'"
    by (cases cs) auto
  from cs(2) obtain v where v: "parse m l = Inr v" "validate m v = Inr c"
    by (auto simp: read_line_def split: sum.splits)
  from Cons.IH[OF cs(3)] cs(1) v show ?case
    by (simp add: showProgress_emit emit_emit)
qed

lemma importStream_from_fails:
  "read_line m bad = Inl err \<Longrightarrow>
   importStream_from m prefix av (bad # post) results st = (results, validationError err st)"
  by (auto simp: read_line_def split: sum.splits)

text \<open>
  C3.  Whatever the input: when the lines \<open>pre\<close> are accepted (they parse and validate,
  to the chunks \<open>cs\<close>) and the next line \<open>bad\<close> fails to parse or to validate with
  \<open>err\<close>, the run is: the progress marks of \<open>cs\<close>, the fatal message with the text of
  \<open>err\<close>, and \<open>process.exit(1)\<close>.  The lines \<open>post\<close> behind the failure do not occur in
  the result: none of them is parsed, validated or progressed, the summary is not
  printed, and the flow writes nothing at all (the run has no \<open>RestPut\<close>).
\<close>

theorem importStream_aborts_at_first_invalid:
  assumes "map (read_line m) pre = map Inr cs" and "read_line m bad = Inl err"
  shows "importStream m prefix av (pre @ bad # post) =
     \<lparr>effects = ConsoleLogArgv av # map (progress av) cs
        @ [LoggerError ''Unable to process input!'' (message err), ProcessExit 1],
      exit_code = Some 1\<rparr>"
proof -
  let ?st = "start (showCompleted_init prefix av)"
  have "importStream_from m prefix av (pre @ bad # post) [] ?st =
        importStream_from m prefix av (bad # post) ([] @ cs) (emit (map (progress av) cs) ?st)"
    by (rule importStream_from_accepts[OF assms(1)])
  also have "\<dots> = ([] @ cs, validationError err (emit (map (progress av) cs) ?st))"
    by (rule importStream_from_fails[OF assms(2)])
  finally show ?thesis
    by (simp add: importStream_def toArray_def validationError_def emit_def start_def
        showCompleted_init_def)
qed

theorem importStream_aborts_at_first_invalid_witness:
  "map (read_line example_modules) [line_a, line_b] =
     map Inr [(''/_pages/a'', JNum 1), (''/_pages/b'', JNum 2)]
   \<and> read_line example_modules ''[]'' = Inl (Error ''invalid chunk'')
   \<and> importStream example_modules ''local'' example_argv [line_a, line_b, ''[]'', line_a] =
     \<lparr>effects = [ConsoleLogArgv example_argv, StdoutWrite ''.'', StdoutWrite ''.'',
                 LoggerError ''Unable to process input!'' ''invalid chunk'', ProcessExit 1],
      exit_code = Some 1\<rparr>"
proof -
  have pre: "map (read_line example_modules) [line_a, line_b] =
     map Inr [(''/_pages/a'', JNum 1), (''/_pages/b'', JNum 2)]"
    by (simp add: read_line_def example_modules_def line_a_def line_b_def)
  have bad: "read_line example_modules ''[]'' = Inl (Error ''invalid chunk'')"
    by (simp add: read_line_def example_modules_def line_a_def line_b_def)
  show ?thesis
    using pre bad
      importStream_aborts_at_first_invalid[OF pre bad, of "''local''" example_argv "[line_a]"]
    by (simp add: progress_def example_argv_def)
qed

subsection \<open>The single resource\<close>

lemma afterPut_eq:
  "afterPut prefix av evs results st =
     (results @ values_of evs, emit (concat (map (outcome_effects av) evs)) st)"
proof (induction evs arbitrary: results st)
  case Nil
  then show ?case by (simp add: emit_Nil)
next
  case (Cons ev evs)
  then show ?case
    by (cases ev) (simp_all add: emit_emit showProgress_emit)
qed

lemma importSingleUrl_from_step:
  "validate m v = Inr c \<Longrightarrow>
   importSingleUrl_from m prefix av (Inr v # rest) results st =
   importSingleUrl_from m prefix av rest (results @ values_of (outcomes m prefix av c))
     (emit (write_effects m prefix av c) st)"
  by (simp add: afterPut_eq emit_emit write_effects_def outcomes_def Let_def)

lemma importSingleUrl_from_valid:
  "map (validate m) vs = map Inr cs \<Longrightarrow>
   importSingleUrl_from m prefix av (map Inr vs @ rest) results st =
   importSingleUrl_from m prefix av rest
     (results @ values_of (concat (map (outcomes m prefix av) cs)))
     (emit (concat (map (write_effects m prefix av) cs)) st)"
proof (induction vs arbitrary: cs results st)
  case Nil
  then show ?case by (simp add: emit_Nil)
next
  case (Cons v vs)
  from Cons.prems obtain c cs' where cs: "cs = c # cs'" "validate m v = Inr c"
    "map (validate m) vs = map Inr cs'"
    by (cases cs) auto
  have "importSingleUrl_from m prefix av (map Inr (v # vs) @ rest) results st =
        importSingleUrl_from m prefix av (map Inr vs @ rest)
          (results @ values_of (outcomes m prefix av c))
          (emit (write_effects m prefix av c) st)"
    using importSingleUrl_from_step[OF cs(2)] by simp
  also have "\<dots> = importSingleUrl_from m prefix av rest
     ((results @ values_of (outcomes m prefix av c))
        @ values_of (concat (map (outcomes m prefix av) cs')))
     (emit (concat (map (write_effects m prefix av) cs'))
        (emit (write_effects m prefix av c) st))"
    by (rule Cons.IH[OF cs(3)])
  finally show ?case
    by (simp add: cs(1) emit_emit values_of_append)
qed

lemma count_red_outcome:
  "count_list (concat (map (outcome_effects av) evs)) (StdoutWriteRed ''.'')
     = length (errors_of evs)"
  by (induction evs rule: errors_of.induct) (simp_all add: progress_def)

lemma count_red_writes:
  "count_list (concat (map (write_effects m prefix av) cs)) (StdoutWriteRed ''.'')
     = length (errors_of (concat (map (outcomes m prefix av) cs)))"
  by (induction cs) (simp_all add: write_effects_def count_red_outcome errors_of_append)

lemma one_outcome_each:
  "\<forall>c\<in>set cs. length (f c) = 1 \<Longrightarrow>
   length (values_of (concat (map f cs))) + length (errors_of (concat (map f cs))) = length cs"
proof (induction cs)
  case Nil
  then show ?case by simp
next
  case (Cons c cs)
  then obtain ev where "f c = [ev]"
    by (cases "f c") auto
  with Cons show ?case by (cases ev) simp_all
qed

text \<open>
  C2, as stated, fails.  In the concrete setting the crawl of \<open>prod/_pages/x\<close> fetches
  \<open>/_pages/a\<close>, fails on its second resource with \<open>404\<close> and would then fetch
  \<open>/_pages/c\<close>.  The run writes \<open>/_pages/a\<close>, logs the \<open>404\<close>, reports it as fatal
  and exits with code 1: \<open>/_pages/c\<close> is neither validated nor written, and no summary
  is printed.
\<close>

theorem importSingleUrl_fetch_error_counterexample:
  "importSingleUrl example_modules ''prod/_pages/x'' ''local'' example_argv =
     \<lparr>effects =
        [LoggerInfoSingleUrl ''prod/_pages/x'' ''localprod/_pages/x'',
         ConsoleLogArgv example_argv,
         RestPut (''local/_pages/a'', JNum 1) ''secret'' 1,
         StdoutWrite ''.'',
         ConsoleLogError (Error ''404''),
         LoggerError ''Unable to process input!'' ''404'',
         ProcessExit 1],
      exit_code = Some 1\<rparr>"
  by (simp add: importSingleUrl_def example_modules_def example_argv_def toArray_def
      validationError_def showProgress_def emit_def start_def showCompleted_init_def Let_def)

text \<open>
  C2, amended.  In the single-resource flow a fetch failure is logged
  (\<open>console.log\<close>) and pushed back on the stream by the first \<open>errors\<close> handler, and
  \<open>stopOnError(validationError)\<close> then treats it as it treats a validation failure: when
  the crawl yields the resources \<open>vs\<close>, which validate to \<open>cs\<close>, and then fails with
  \<open>err\<close>, the run is the writes of \<open>cs\<close> with their outcomes, the log of \<open>err\<close>, the
  fatal message with the text of \<open>err\<close>, and \<open>process.exit(1)\<close>.  Whatever the crawl
  would yield behind the failure (\<open>post\<close>) is neither validated nor written, and the
  summary is not printed.
\<close>

theorem importSingleUrl_fetch_error_is_fatal:
  assumes crawl: "recursiveGet m url (concurrency av) = map Inr vs @ Inl err # post"
    and valid: "map (validate m) vs = map Inr cs"
  shows "importSingleUrl m url prefix av =
     \<lparr>effects =
        [LoggerInfoSingleUrl url (fst (fromChunk m prefix (toChunk m url (JObj [])))),
         ConsoleLogArgv av]
        @ concat (map (write_effects m prefix av) cs)
        @ [ConsoleLogError err,
           LoggerError ''Unable to process input!'' (message err),
           ProcessExit 1],
      exit_code = Some 1\<rparr>"
proof -
  let ?st = "start (LoggerInfoSingleUrl url (fst (fromChunk m prefix (toChunk m url (JObj []))))
                # showCompleted_init prefix av)"
  have "importSingleUrl_from m prefix av (map Inr vs @ Inl err # post) [] ?st =
        importSingleUrl_from m prefix av (Inl err # post)
          ([] @ values_of (concat (map (outcomes m prefix av) cs)))
          (emit (concat (map (write_effects m prefix av) cs)) ?st)"
    by (rule importSingleUrl_from_valid[OF valid])
  then show ?thesis
    by (simp add: importSingleUrl_def crawl toArray_def validationError_def emit_def start_def
        showCompleted_init_def)
qed

theorem importSingleUrl_fetch_error_is_fatal_witness:
  "recursiveGet example_modules ''prod/_pages/x'' (concurrency example_argv) =
     map Inr [JObj [(''/_pages/a'', JNum 1)]] @ Inl (Error ''404'')
       # [Inr (JObj [(''/_pages/c'', JNum 3)])]
   \<and> map (validate example_modules) [JObj [(''/_pages/a'', JNum 1)]] =
     map Inr [(''/_pages/a'', JNum 1)]
   \<and> exit_code (importSingleUrl example_modules ''prod/_pages/x'' ''local'' example_argv)
       = Some 1
   \<and> effects (importSingleUrl example_modules ''prod/_pages/x'' ''local'' example_argv) =
        [LoggerInfoSingleUrl ''prod/_pages/x'' ''localprod/_pages/x'',
         ConsoleLogArgv example_argv]
        @ write_effects example_modules ''local'' example_argv (''/_pages/a'', JNum 1)
        @ [ConsoleLogError (Error ''404''),
           LoggerError ''Unable to process input!'' ''404'',
           ProcessExit 1]"
proof -
  have crawl: "recursiveGet example_modules ''prod/_pages/x'' (concurrency example_argv) =
     map Inr [JObj [(''/_pages/a'', JNum 1)]] @ Inl (Error ''404'')
       # [Inr (JObj [(''/_pages/c'', JNum 3)])]"
    by (simp add: example_modules_def)
  have valid: "map (validate example_modules) [JObj [(''/_pages/a'', JNum 1)]] =
     map Inr [(''/_pages/a'', JNum 1)]"
    by (simp add: example_modules_def)
  have "fst (fromChunk example_modules ''local''
          (toChunk example_modules ''prod/_pages/x'' (JObj []))) = ''localprod/_pages/x''"
    by (simp add: example_modules_def)
  then show ?thesis
    using crawl valid
      importSingleUrl_fetch_error_is_fatal[OF crawl valid, of "''local''"]
    by simp
qed

text \<open>
  C6.  In the single-resource flow, when every resource of the crawl is fetched (\<open>vs\<close>)
  and validates (to \<open>cs\<close>) and every write has one outcome, a value or an error, then
  whichever writes fail: the run is not aborted (no exit code); each chunk is put once;
  a failed write is logged and marked with a red dot, a successful one makes progress;
  the summary counts the successful writes; the number of red dots is the number of
  failed writes; and successes and failures together are the writes attempted.
\<close>

theorem importSingleUrl_write_error_not_fatal:
  assumes crawl: "recursiveGet m url (concurrency av) = map Inr vs"
    and valid: "map (validate m) vs = map Inr cs"
    and once: "\<forall>c\<in>set cs. length (outcomes m prefix av c) = 1"
  shows "importSingleUrl m url prefix av =
     \<lparr>effects =
        [LoggerInfoSingleUrl url (fst (fromChunk m prefix (toChunk m url (JObj [])))),
         ConsoleLogArgv av]
        @ concat (map (write_effects m prefix av) cs)
        @ [StdoutWrite [CHR 0x0A],
           LoggerInfo (''Imported ''
             @ pluralize_uri (length (values_of (concat (map (outcomes m prefix av) cs))))
             @ ''!''),
           LoggerDebugDetails
             (join_lines (map fst (values_of (concat (map (outcomes m prefix av) cs)))))],
      exit_code = None\<rparr>
   \<and> count_list (effects (importSingleUrl m url prefix av)) (StdoutWriteRed ''.'')
       = length (errors_of (concat (map (outcomes m prefix av) cs)))
   \<and> length (values_of (concat (map (outcomes m prefix av) cs)))
       + length (errors_of (concat (map (outcomes m prefix av) cs))) = length cs"
proof -
  let ?st = "start (LoggerInfoSingleUrl url (fst (fromChunk m prefix (toChunk m url (JObj []))))
                # showCompleted_init prefix av)"
  have "importSingleUrl_from m prefix av (map Inr vs @ []) [] ?st =
        importSingleUrl_from m prefix av []
          ([] @ values_of (concat (map (outcomes m prefix av) cs)))
          (emit (concat (map (write_effects m prefix av) cs)) ?st)"
    by (rule importSingleUrl_from_valid[OF valid])
  then have run: "importSingleUrl m url prefix av =
     \<lparr>effects =
        [LoggerInfoSingleUrl url (fst (fromChunk m prefix (toChunk m url (JObj [])))),
         ConsoleLogArgv av]
        @ concat (map (write_effects m prefix av) cs)
        @ [StdoutWrite [CHR 0x0A],
           LoggerInfo (''Imported ''
             @ pluralize_uri (length (values_of (concat (map (outcomes m prefix av) cs))))
             @ ''!''),
           LoggerDebugDetails
             (join_lines (map fst (values_of (concat (map (outcomes m prefix av) cs)))))],
      exit_code = None\<rparr>"
    by (simp add: importSingleUrl_def crawl toArray_def showCompleted_def emit_def start_def
        showCompleted_init_def)
  have red: "count_list (effects (importSingleUrl m url prefix av)) (StdoutWriteRed ''.'')
       = length (errors_of (concat (map (outcomes m prefix av) cs)))"
    by (simp add: run count_red_writes)
  from run red one_outcome_each[OF once] show ?thesis by blast
qed

theorem importSingleUrl_write_error_not_fatal_witness:
  "recursiveGet example_modules ''prod/_pages/y'' (concurrency example_argv) =
     map Inr [JObj [(''/_pages/a'', JNum 1)], JObj [(''/_pages/b'', JNum 2)],
              JObj [(''/_pages/c'', JNum 3)]]
   \<and> importSingleUrl example_modules ''prod/_pages/y'' ''local'' example_argv =
     \<lparr>effects =
        [LoggerInfoSingleUrl ''prod/_pages/y'' ''localprod/_pages/y'',
         ConsoleLogArgv example_argv,
         RestPut (''local/_pages/a'', JNum 1) ''secret'' 1,
         StdoutWrite ''.'',
         RestPut (''local/_pages/b'', JNum 2) ''secret'' 1,
         ConsoleLogError (Error ''500''),
         StdoutWriteRed ''.'',
         RestPut (''local/_pages/c'', JNum 3) ''secret'' 1,
         StdoutWrite ''.'',
         StdoutWrite [CHR 0x0A],
         LoggerInfo ''Imported 2 uris!'',
         LoggerDebugDetails (''local/_pages/a'' @ [CHR 0x0A] @ ''local/_pages/c'')],
      exit_code = None\<rparr>
   \<and> count_list (effects (importSingleUrl example_modules ''prod/_pages/y'' ''local''
          example_argv)) (StdoutWriteRed ''.'') = 1"
proof -
  let ?vs = "[JObj [(''/_pages/a'', JNum 1)], JObj [(''/_pages/b'', JNum 2)],
              JObj [(''/_pages/c'', JNum 3)]]"
  let ?cs = "[(''/_pages/a'', JNum 1), (''/_pages/b'', JNum 2), (''/_pages/c'', JNum 3)]"
  have crawl: "recursiveGet example_modules ''prod/_pages/y'' (concurrency example_argv) =
     map Inr ?vs"
    by (simp add: example_modules_def)
  have valid: "map (validate example_modules) ?vs = map Inr ?cs"
    by (simp add: example_modules_def)
  have once: "\<forall>c\<in>set ?cs. length (outcomes example_modules ''local'' example_argv c) = 1"
    by (simp add: outcomes_def example_modules_def)
  have outs: "concat (map (outcomes example_modules ''local'' example_argv) ?cs) =
     [Inr (''local/_pages/a'', JNum 1), Inl (Error ''500''), Inr (''local/_pages/c'', JNum 3)]"
    by (simp add: outcomes_def example_modules_def)
  have writes: "concat (map (write_effects example_modules ''local'' example_argv) ?cs) =
     [RestPut (''local/_pages/a'', JNum 1) ''secret'' 1,
      StdoutWrite ''.'',
      RestPut (''local/_pages/b'', JNum 2) ''secret'' 1,
      ConsoleLogError (Error ''500''),
      StdoutWriteRed ''.'',
      RestPut (''local/_pages/c'', JNum 3) ''secret'' 1,
      StdoutWrite ''.'']"
    by (simp add: write_effects_def outcomes_def progress_def example_modules_def
        example_argv_def)
  have url: "fst (fromChunk example_modules ''local''
          (toChunk example_modules ''prod/_pages/y'' (JObj []))) = ''localprod/_pages/y''"
    by (simp add: example_modules_def)
  have two: "pluralize_uri (Suc (Suc 0)) = ''2 uris''"
    by (simp add: pluralize_uri_def show_nat.simps)
  show ?thesis
    using crawl
      importSingleUrl_write_error_not_fatal[OF crawl valid once, unfolded outs writes url]
    by (simp add: two)
qed

section \<open>Properties of the transcoder\<close>

subsection \<open>The model against the tests of \<open>part_000\<close>\<close>

lemma classify_test_uris:
  "classify ''/_components/article'' = Some (Component ''article'' None)"
  "classify ''/_components/article/instances/foo'' = Some (Component ''article'' (Some ''foo''))"
  "classify ''/_components/paragraph'' = Some (Component ''paragraph'' None)"
  "classify ''/_components/paragraph/instances/bar'' =
     Some (Component ''paragraph'' (Some ''bar''))"
  "classify ''/_components/image'' = Some (Component ''image'' None)"
  "classify ''/_components/a'' = Some (Component ''a'' None)"
  "classify ''/_components/b'' = Some (Component ''b'' None)"
  "classify ''/_pages/foo'' = Some (Page ''foo'')"
  "classify ''/_pages/bar'' = Some (Page ''bar'')"
  "classify ''/_users/Zm9vQGdvb2dsZQ=='' = Some (User ''Zm9vQGdvb2dsZQ=='')"
  "classify ''/_users/abc'' = Some (User ''abc'')"
  "classify ''/_users/def'' = Some (User ''def'')"
  "classify ''/_lists/a'' = Some (Entry ''_lists'' ''a'')"
  "classify ''/_uris/'' = Some (Entry ''_uris'' ''/'')"
  by (simp_all add: classify_def)

text \<open>``converts deep component dispatch to bootstrap'' (lines 149--153).\<close>

lemma test_toBootstrap_components: "toBootstrap componentDispatch = bootstrapComponents"
  unfolding toBootstrap_def componentDispatch_def bootstrapComponents_def
  by (simp add: toBootstrap_step_def classify_test_uris add_denormalized_def ref_of_def
      empty_bootstrap_def fun_upd_twist)

text \<open>``converts page dispatch to bootstrap'' (lines 155--182).\<close>

lemma test_toBootstrap_pages:
  "toBootstrap legacyPageDispatch = empty_bootstrap\<lparr>pages :=
     [''foo'' \<mapsto>
        JObj [(''layout'', JStr ''/_components/layout/instances/bar''),
              (''main'', JArr [JStr ''/_components/foo/instances/bar''])],
      ''bar'' \<mapsto>
        JObj [(''layout'', JStr ''/_components/layout/instances/bar''),
              (''main'', JArr [JStr ''/_components/foo/instances/bar'']),
              (''customUrl'', JStr ''http://google.com'')]]\<rparr>"
  unfolding toBootstrap_def legacyPageDispatch_def
  by (simp add: toBootstrap_step_def classify_test_uris empty_bootstrap_def)

text \<open>``converts user dispatch to bootstrap'' (lines 184--194).\<close>

lemma test_toBootstrap_users:
  "toBootstrap userDispatch = empty_bootstrap\<lparr>users :=
     [JObj [(''username'', JStr ''foo''), (''provider'', JStr ''google''),
            (''auth'', JStr ''admin'')]]\<rparr>"
  unfolding toBootstrap_def userDispatch_def
  by (simp add: toBootstrap_step_def classify_test_uris empty_bootstrap_def)

text \<open>``converts arbitrary data dispatch to bootstrap'' (lines 196--200).\<close>

lemma test_toBootstrap_arbitrary:
  "toBootstrap arbitraryDispatch =
     empty_bootstrap\<lparr>collections := collections_of bootstrapArbitrary\<rparr>"
  unfolding toBootstrap_def arbitraryDispatch_def bootstrapArbitrary_def
  by (simp add: toBootstrap_step_def classify_test_uris empty_bootstrap_def)
     (auto simp: fun_eq_iff collections_of_def)

text \<open>``converts mixed dispatches to bootstrap'' (lines 202--226).\<close>

lemma test_toBootstrap_mixed:
  "toBootstrap mixedDispatch = empty_bootstrap
     \<lparr>components :=
        [''a'' \<mapsto> \<lparr>base = JObj [(''child'', JObj [(''_ref'', JStr ''/_components/b'')])],
                    instances = Map.empty\<rparr>,
         ''b'' \<mapsto> \<lparr>base = JObj [(''a'', JStr ''b'')], instances = Map.empty\<rparr>],
      users :=
        [JObj [(''username'', JStr ''a''), (''provider'', JStr ''b''),
               (''auth'', JStr ''admin'')],
         JObj [(''username'', JStr ''d''), (''provider'', JStr ''e''),
               (''auth'', JStr ''admin'')]]\<rparr>"
  unfolding toBootstrap_def mixedDispatch_def
  by (simp add: toBootstrap_step_def classify_test_uris add_denormalized_def ref_of_def
      empty_bootstrap_def)

text \<open>``converts bootstrapped arbitrary data to dispatch'' (lines 141--145).\<close>

lemma test_toDispatch_arbitrary: "toDispatch_arbitrary bootstrapArbitrary = arbitraryDispatch"
  by (simp add: toDispatch_arbitrary_def toDispatch_entry_def bootstrapArbitrary_def
      arbitraryDispatch_def)

subsection \<open>Reading the URI of an entry\<close>

lemma split_on_slash:
  "CHR ''/'' \<notin> set name \<Longrightarrow> split_on ''/'' (name @ CHR ''/'' # rest) = Some (name, rest)"
  by (induction name) auto

lemma classify_entry:
  assumes "CHR ''/'' \<notin> set name" and "name \<notin> {''_components'', ''_pages'', ''_users''}"
  shows "classify (''/'' @ name @ ''/'' @ rest) =
           Some (Entry name (if rest = [] then ''/'' else rest))"
  using assms by (simp add: classify_def split_on_slash)

lemma classify_toDispatch_entry:
  assumes "CHR ''/'' \<notin> set name" and "name \<notin> {''_components'', ''_pages'', ''_users''}"
    and "fst e \<noteq> []"
  shows "classify (fst (toDispatch_entry name e)) = Some (Entry name (fst e))"
  using assms classify_entry[OF assms(1,2), of "if fst e = ''/'' then [] else fst e"]
  by (auto simp: toDispatch_entry_def)

lemma step_entry:
  assumes "CHR ''/'' \<notin> set name" and "name \<notin> {''_components'', ''_pages'', ''_users''}"
    and "fst e \<noteq> []"
  shows "toBootstrap_step (toDispatch_entry name e) d =
     d\<lparr>collections := (collections d)(name := (collections d name)(fst e \<mapsto> snd e))\<rparr>"
  using classify_toDispatch_entry[OF assms]
  by (simp add: toBootstrap_step_def) (simp add: toDispatch_entry_def)

subsection \<open>The arbitrary collections there and back\<close>

lemma map_of_rev_distinct: "distinct (map fst xs) \<Longrightarrow> map_of (rev xs) = map_of xs"
proof (induction xs)
  case Nil
  then show ?case by simp
next
  case (Cons x xs)
  then have "fst x \<notin> dom (map_of xs)"
    by (simp add: dom_map_of_conv_image_fst)
  with Cons show ?case
    by (cases x) (auto simp: fun_eq_iff map_add_def split: option.splits)
qed

lemma fold_entries:
  assumes "CHR ''/'' \<notin> set name" and "name \<notin> {''_components'', ''_pages'', ''_users''}"
    and "[] \<notin> fst ` set es"
  shows "fold toBootstrap_step (map (toDispatch_entry name) es) d =
     d\<lparr>collections := (collections d)(name := collections d name ++ map_of (rev es))\<rparr>"
  using assms(3)
proof (induction es arbitrary: d)
  case Nil
  then show ?case by simp
next
  case (Cons e es)
  then have e: "fst e \<noteq> []" and es: "[] \<notin> fst ` set es" by auto
  show ?case
    by (simp add: step_entry[OF assms(1,2) e] Cons.IH[OF es] map_add_upd_left)
       (cases e, simp add: fun_eq_iff map_add_def split: option.splits)
qed

lemma fold_collection:
  assumes "wf_collection col"
  shows "fold toBootstrap_step (map (toDispatch_entry (fst col)) (snd col)) d =
     d\<lparr>collections := (collections d)(fst col := collections d (fst col) ++ map_of (snd col))\<rparr>"
  using assms fold_entries[of "fst col" "snd col" d]
  by (simp add: wf_collection_def map_of_rev_distinct)

lemma fold_collections:
  "wf_collections cols \<Longrightarrow>
   fold toBootstrap_step (toDispatch_arbitrary cols) d =
     d\<lparr>collections := (\<lambda>name. collections d name ++ collections_of cols name)\<rparr>"
proof (induction cols arbitrary: d)
  case Nil
  then show ?case by (simp add: toDispatch_arbitrary_def collections_of_def)
next
  case (Cons col cols)
  then have col: "wf_collection col" and cols: "wf_collections cols"
    and fresh: "fst col \<notin> fst ` set cols"
    by (auto simp: wf_collections_def)
  have split: "toDispatch_arbitrary (col # cols) =
      map (toDispatch_entry (fst col)) (snd col) @ toDispatch_arbitrary cols"
    by (simp add: toDispatch_arbitrary_def)
  from fresh have none: "map_of cols (fst col) = None"
    by (simp add: map_of_eq_None_iff)
  show ?case
    unfolding split fold_append comp_def fold_collection[OF col] Cons.IH[OF cols]
    using none
    by (cases col) (auto simp: fun_eq_iff collections_of_def map_add_def split: option.splits)
qed

lemma toBootstrap_single_entry:
  assumes "wf_collections cols" and "(name, es) \<in> set cols" and "(k, v) \<in> set es"
  shows "collections (toBootstrap [toDispatch_entry name (k, v)]) name k = Some v"
proof -
  from assms(1,2) have "wf_collection (name, es)"
    by (auto simp: wf_collections_def list_all_iff)
  then have name: "CHR ''/'' \<notin> set name"
      "name \<notin> {''_components'', ''_pages'', ''_users''}" and keys: "[] \<notin> fst ` set es"
    by (simp_all add: wf_collection_def)
  from keys assms(3) have k: "fst (k, v) \<noteq> []"
    by force
  show ?thesis
    by (simp add: toBootstrap_def step_entry[OF name k])
qed

text \<open>
  C9.  For well-formed arbitrary collections: every entry \<open>(k, v)\<close> of a collection
  \<open>name\<close> is emitted by \<open>toDispatch\<close> as the record \<open>/{name}/{k}\<close> with the value \<open>v\<close>
  unchanged, the key \<open>/\<close> giving the empty remainder (\<open>/{name}/\<close>, no second separator);
  \<open>toBootstrap\<close> of that record puts \<open>v\<close> back under the key \<open>k\<close> of the collection
  \<open>name\<close>, so under \<open>/\<close> when the remainder is empty; and \<open>toBootstrap\<close> of all the
  records \<open>toDispatch\<close> emits is the document that has these collections and nothing
  else.
\<close>

theorem arbitrary_collections_round_trip:
  assumes "wf_collections cols"
  shows "toBootstrap (toDispatch_arbitrary cols) =
           empty_bootstrap\<lparr>collections := collections_of cols\<rparr>
    \<and> (\<forall>name es k v. (name, es) \<in> set cols \<and> (k, v) \<in> set es \<longrightarrow>
          (''/'' @ name @ ''/'' @ (if k = ''/'' then [] else k), v)
             \<in> set (toDispatch_arbitrary cols)
          \<and> collections
               (toBootstrap [(''/'' @ name @ ''/'' @ (if k = ''/'' then [] else k), v)])
               name k = Some v)"
proof -
  have whole: "toBootstrap (toDispatch_arbitrary cols) =
           empty_bootstrap\<lparr>collections := collections_of cols\<rparr>"
    unfolding toBootstrap_def fold_collections[OF assms]
    by (simp add: empty_bootstrap_def)
  have emitted: "(''/'' @ name @ ''/'' @ (if k = ''/'' then [] else k), v)
             \<in> set (toDispatch_arbitrary cols)"
    if "(name, es) \<in> set cols" "(k, v) \<in> set es" for name es k v
    using that by (force simp: toDispatch_arbitrary_def toDispatch_entry_def)
  have restored: "collections
               (toBootstrap [(''/'' @ name @ ''/'' @ (if k = ''/'' then [] else k), v)])
               name k = Some v"
    if "(name, es) \<in> set cols" "(k, v) \<in> set es" for name es k v
    using toBootstrap_single_entry[OF assms that, unfolded toDispatch_entry_def fst_conv snd_conv] .
  from whole emitted restored show ?thesis by blast
qed

theorem arbitrary_collections_round_trip_witness:
  "wf_collections bootstrapArbitrary
   \<and> toBootstrap (toDispatch_arbitrary bootstrapArbitrary) =
       empty_bootstrap\<lparr>collections := collections_of bootstrapArbitrary\<rparr>
   \<and> (''/_uris/'', JStr ''/_pages/index'') \<in> set (toDispatch_arbitrary bootstrapArbitrary)
   \<and> collections (toBootstrap [(''/_uris/'', JStr ''/_pages/index'')]) ''_uris'' ''/''
       = Some (JStr ''/_pages/index'')
   \<and> (''/_lists/a'', JArr [JNum 1, JNum 2, JNum 3])
       \<in> set (toDispatch_arbitrary bootstrapArbitrary)
   \<and> collections (toBootstrap [(''/_lists/a'', JArr [JNum 1, JNum 2, JNum 3])]) ''_lists'' ''a''
       = Some (JArr [JNum 1, JNum 2, JNum 3])"
proof -
  have wf: "wf_collections bootstrapArbitrary"
    by (simp add: wf_collections_def wf_collection_def bootstrapArbitrary_def)
  note rt = arbitrary_collections_round_trip[OF wf]
  have uris: "(''_uris'', [(''/'', JStr ''/_pages/index'')]) \<in> set bootstrapArbitrary
      \<and> (''/'', JStr ''/_pages/index'') \<in> set [(''/'', JStr ''/_pages/index'')]"
    by (simp add: bootstrapArbitrary_def)
  have lists: "(''_lists'', [(''a'', JArr [JNum 1, JNum 2, JNum 3])]) \<in> set bootstrapArbitrary
      \<and> (''a'', JArr [JNum 1, JNum 2, JNum 3]) \<in> set [(''a'', JArr [JNum 1, JNum 2, JNum 3])]"
    by (simp add: bootstrapArbitrary_def)
  from rt uris have 1: "(''/'' @ ''_uris'' @ ''/'' @ (if ''/'' = ''/'' then [] else ''/''),
        JStr ''/_pages/index'') \<in> set (toDispatch_arbitrary bootstrapArbitrary)
     \<and> collections (toBootstrap [(''/'' @ ''_uris'' @ ''/'' @ (if ''/'' = ''/'' then [] else ''/''),
        JStr ''/_pages/index'')]) ''_uris'' ''/'' = Some (JStr ''/_pages/index'')"
    by blast
  from rt lists have 2: "(''/'' @ ''_lists'' @ ''/'' @ (if ''a'' = ''/'' then [] else ''a''),
        JArr [JNum 1, JNum 2, JNum 3]) \<in> set (toDispatch_arbitrary bootstrapArbitrary)
     \<and> collections (toBootstrap [(''/'' @ ''_lists'' @ ''/'' @ (if ''a'' = ''/'' then [] else ''a''),
        JArr [JNum 1, JNum 2, JNum 3])]) ''_lists'' ''a'' = Some (JArr [JNum 1, JNum 2, JNum 3])"
    by blast
  from wf rt 1 2 show ?thesis by simp
qed

subsection \<open>What a reference carries becomes a component\<close>

lemma strip_refs_reference:
  "ref_of fs = Some u \<Longrightarrow> strip_refs (JObj fs) = JObj [(''_ref'', JStr u)]"
  by simp

lemma bare_iff: "bare fs \<longleftrightarrow> (\<exists>u. fs = [(''_ref'', JStr u)])"
  by (auto simp: bare_def split: list.splits json.splits)

lemma bare_delete: "bare fs \<Longrightarrow> AList.delete ''_ref'' fs = []"
  by (auto simp: bare_iff)

lemma strip_refs_bare: "\<forall>gs\<in>set (ref_objects x). bare gs \<Longrightarrow> strip_refs x = x"
proof (induction x rule: strip_refs.induct)
  case (1 fs)
  show ?case
  proof (cases "ref_of fs")
    case None
    have "map (\<lambda>(k, v). (k, strip_refs v)) fs = fs"
    proof (rule map_idI)
      fix kv assume kv: "kv \<in> set fs"
      obtain k v where [simp]: "kv = (k, v)" by (cases kv)
      from 1(2) None kv have "\<forall>gs\<in>set (ref_objects v). bare gs"
        by (auto simp: None)
      with 1(1)[OF None kv] show "(case kv of (k, v) \<Rightarrow> (k, strip_refs v)) = kv"
        by simp
    qed
    with None show ?thesis by simp
  next
    case (Some u)
    with 1(2) have "bare fs" by simp
    with Some show ?thesis by (auto simp: bare_iff ref_of_def)
  qed
next
  case (2 xs)
  have "map strip_refs xs = xs"
    by (rule map_idI) (use 2 in auto)
  then show ?case by simp
qed simp_all

lemma ref_of_delete: "ref_of (AList.delete ''_ref'' fs) = None"
  by (simp add: ref_of_def delete_conv')

lemma map_of_strip:
  "map_of (map (\<lambda>(k, v). (k, strip_refs v)) fs) k = map_option strip_refs (map_of fs k)"
  by (induction fs) auto

lemma strip_refs_at:
  "value_at v p = Some (JObj fs) \<Longrightarrow> ref_of fs = Some u \<Longrightarrow> outermost v p \<Longrightarrow>
   value_at (strip_refs v) p = Some (JObj [(''_ref'', JStr u)])"
proof (induction v p rule: value_at.induct)
  case (1 v)
  then show ?case by simp
next
  case (2 gs k p)
  then show ?case by (auto simp: map_of_strip split: option.splits)
next
  case (3 xs n p)
  then show ?case by (auto split: if_splits)
qed simp_all

lemma value_at_ref_objects:
  "value_at v p = Some (JObj fs) \<Longrightarrow> ref_of fs = Some u \<Longrightarrow> fs \<in> set (ref_objects v)"
proof (induction v p rule: value_at.induct)
  case (1 v)
  then show ?case by simp
next
  case (2 gs k p)
  then obtain x where x: "map_of gs k = Some x" "value_at x p = Some (JObj fs)"
    by (auto split: option.splits)
  with 2 have in_x: "fs \<in> set (ref_objects x)" by simp
  from x(1) have mem: "(k, x) \<in> set gs" by (rule map_of_SomeD)
  show ?case
  proof (cases "ref_of gs")
    case None
    with in_x mem show ?thesis by force
  next
    case (Some u0)
    have "k \<noteq> ''_ref''"
    proof
      assume "k = ''_ref''"
      with Some x(1) have "\<exists>s. x = JStr s"
        by (auto simp: ref_of_def split: option.splits json.splits)
      with in_x show False by auto
    qed
    with in_x mem Some show ?thesis by force
  qed
next
  case (3 xs n p)
  then show ?case by (auto split: if_splits)
qed simp_all

lemma json_fields_induct [case_names JObj JArr Other]:
  assumes "\<And>fs. (\<And>k x. (k, x) \<in> set fs \<Longrightarrow> P x) \<Longrightarrow> P (JObj fs)"
    and "\<And>xs. (\<And>x. x \<in> set xs \<Longrightarrow> P x) \<Longrightarrow> P (JArr xs)"
    and "\<And>v. (\<forall>fs. v \<noteq> JObj fs) \<Longrightarrow> (\<forall>xs. v \<noteq> JArr xs) \<Longrightarrow> P v"
  shows "P v"
proof (induction v)
  case (JObj fs)
  show ?case
  proof (rule assms(1))
    fix k x assume "(k, x) \<in> set fs"
    with JObj[of "(k, x)" x] show "P x" by simp
  qed
next
  case (JArr xs)
  then show ?case by (intro assms(2))
qed (simp_all add: assms(3))

lemma ref_objects_denormalized:
  "fs \<in> set (ref_objects v) \<Longrightarrow> ref_of fs = Some u \<Longrightarrow> AList.delete ''_ref'' fs \<noteq> [] \<Longrightarrow>
   (u, JObj (map (\<lambda>(k, v). (k, strip_refs v)) (AList.delete ''_ref'' fs))) \<in> set (denormalized v)"
proof (induction v rule: json_fields_induct)
  case (JObj gs)
  show ?case
  proof (cases "ref_of gs")
    case None
    with JObj.prems(1) obtain k x where kx: "(k, x) \<in> set gs" "fs \<in> set (ref_objects x)"
      by auto
    have "set (denormalized x) \<subseteq> set (denormalized (JObj gs))"
      using kx(1) None by auto
    with JObj.IH[OF kx JObj.prems(2,3)] show ?thesis
      by blast
  next
    case (Some u0)
    from JObj.prems(1) Some consider "fs = gs"
      | k x where "(k, x) \<in> set gs" "k \<noteq> ''_ref''" "fs \<in> set (ref_objects x)"
      by (auto split: if_splits)
    then show ?thesis
    proof cases
      case 1
      with Some JObj.prems show ?thesis by simp
    next
      case 2
      have "set (denormalized x) \<subseteq> set (denormalized (JObj gs))"
        using 2(1,2) Some by (auto simp: Let_def)
      with JObj.IH[OF 2(1,3) JObj.prems(2,3)] show ?thesis
        by blast
    qed
  qed
next
  case (JArr xs)
  then show ?case by auto
next
  case (Other v)
  then show ?case by (cases v) simp_all
qed

lemma denormalized_ref_objects:
  "(u, d) \<in> set (denormalized v) \<Longrightarrow>
   \<exists>gs\<in>set (ref_objects v). ref_of gs = Some u \<and> AList.delete ''_ref'' gs \<noteq> []
      \<and> d = JObj (map (\<lambda>(k, v). (k, strip_refs v)) (AList.delete ''_ref'' gs))"
proof (induction v rule: json_fields_induct)
  case (JObj gs)
  show ?case
  proof (cases "ref_of gs")
    case None
    with JObj.prems obtain k x where kx: "(k, x) \<in> set gs" "(u, d) \<in> set (denormalized x)"
      by auto
    have "set (ref_objects x) \<subseteq> set (ref_objects (JObj gs))"
      using kx(1) None by auto
    with JObj.IH[OF kx] show ?thesis
      by blast
  next
    case (Some u0)
    from JObj.prems Some consider
        "u = u0" "AList.delete ''_ref'' gs \<noteq> []"
        "d = JObj (map (\<lambda>(k, v). (k, strip_refs v)) (AList.delete ''_ref'' gs))"
      | k x where "(k, x) \<in> set gs" "k \<noteq> ''_ref''" "(u, d) \<in> set (denormalized x)"
      by (auto simp: Let_def split: if_splits)
    then show ?thesis
    proof cases
      case 1
      with Some show ?thesis by auto
    next
      case 2
      have "set (ref_objects x) \<subseteq> set (ref_objects (JObj gs))"
        using 2(1,2) Some by auto
      with JObj.IH[OF 2(1,3)] show ?thesis
        by blast
    qed
  qed
next
  case (JArr xs)
  from JArr.prems obtain x where x: "x \<in> set xs" "(u, d) \<in> set (denormalized x)"
    by auto
  have "set (ref_objects x) \<subseteq> set (ref_objects (JArr xs))"
    using x(1) by auto
  with JArr.IH[OF x] show ?case
    by blast
next
  case (Other v)
  then show ?case by (cases v) simp_all
qed

lemma component_at_add_same: "component_at (add_component t i v d) t i = Some v"
  by (cases i) (simp_all add: component_at_def split: option.splits)

lemma component_at_add_other:
  "component_at d t' i' = Some x \<Longrightarrow> (t, i) \<noteq> (t', i') \<Longrightarrow>
   component_at (add_component t i v d) t' i' = Some x"
  by (cases i; cases i') (auto simp: component_at_def split: option.splits)

lemma add_denormalized_other:
  "component_at d t' i' = Some x \<Longrightarrow> classify (fst r) \<noteq> Some (Component t' i') \<Longrightarrow>
   component_at (add_denormalized r d) t' i' = Some x"
  by (auto simp: add_denormalized_def component_at_add_other
      split: option.splits resource.splits)

lemma fold_add_denormalized_other:
  "component_at d t' i' = Some x \<Longrightarrow>
   \<forall>r\<in>set ds. classify (fst r) \<noteq> Some (Component t' i') \<Longrightarrow>
   component_at (fold add_denormalized ds d) t' i' = Some x"
  by (induction ds arbitrary: d) (simp_all add: add_denormalized_other)

lemma add_denormalized_same:
  "classify (fst r) = Some (Component t' i') \<Longrightarrow>
   component_at (add_denormalized r d) t' i' = Some (snd r)"
  by (simp add: add_denormalized_def component_at_add_same)

lemma fold_add_denormalized_writes:
  assumes "\<forall>r\<in>set ds. classify (fst r) = Some (Component t i) \<longrightarrow> snd r = x"
    and "component_at d t i = Some x \<or> (\<exists>r\<in>set ds. classify (fst r) = Some (Component t i))"
  shows "component_at (fold add_denormalized ds d) t i = Some x"
  using assms
proof (induction ds arbitrary: d)
  case Nil
  then show ?case by simp
next
  case (Cons r ds)
  have "component_at (add_denormalized r d) t i = Some x
      \<or> (\<exists>r\<in>set ds. classify (fst r) = Some (Component t i))"
  proof (cases "classify (fst r) = Some (Component t i)")
    case True
    with Cons.prems(1) show ?thesis by (simp add: add_denormalized_same)
  next
    case False
    with Cons.prems(2) show ?thesis by (auto simp: add_denormalized_other)
  qed
  moreover from Cons.prems(1)
  have "\<forall>r\<in>set ds. classify (fst r) = Some (Component t i) \<longrightarrow> snd r = x" by simp
  ultimately show ?case using Cons.IH by simp
qed

lemma denormalized_not_touching:
  assumes "\<forall>gs\<in>set (ref_objects v). points_to gs t i \<longrightarrow> bare gs"
  shows "\<forall>r\<in>set (denormalized v). classify (fst r) \<noteq> Some (Component t i)"
proof
  fix r assume r: "r \<in> set (denormalized v)"
  obtain u d where [simp]: "r = (u, d)" by (cases r)
  from denormalized_ref_objects[of u d v] r obtain gs
    where gs: "gs \<in> set (ref_objects v)" "ref_of gs = Some u" "AList.delete ''_ref'' gs \<noteq> []"
    by auto
  show "classify (fst r) \<noteq> Some (Component t i)"
  proof
    assume "classify (fst r) = Some (Component t i)"
    with gs(2) have "points_to gs t i" by (simp add: points_to_def)
    with assms gs(1) have "bare gs" by blast
    with gs(3) show False by (simp add: bare_delete)
  qed
qed

lemma step_frame:
  assumes "component_at d t i = Some x" and "\<not> touches r t i"
  shows "component_at (toBootstrap_step r d) t i = Some x"
proof (cases "classify (fst r)")
  case None
  with assms show ?thesis by (simp add: toBootstrap_step_def)
next
  case (Some res)
  show ?thesis
  proof (cases res)
    case (Component t0 i0)
    with Some assms(2) have ne: "(t0, i0) \<noteq> (t, i)"
      and refs: "\<forall>gs\<in>set (ref_objects (snd r)). points_to gs t i \<longrightarrow> bare gs"
      by (auto simp: touches_def list_ex_iff)
    from assms(1) ne
    have "component_at (add_component t0 i0 (strip_refs (snd r)) d) t i = Some x"
      by (rule component_at_add_other)
    then have "component_at (fold add_denormalized (denormalized (snd r))
        (add_component t0 i0 (strip_refs (snd r)) d)) t i = Some x"
      using denormalized_not_touching[OF refs] by (rule fold_add_denormalized_other)
    with Some Component show ?thesis by (simp add: toBootstrap_step_def)
  next
    case (Page k)
    with Some assms show ?thesis
      by (simp add: toBootstrap_step_def component_at_def)
  next
    case (User k)
    with Some assms show ?thesis
      by (simp add: toBootstrap_step_def component_at_def)
  next
    case (Entry c k)
    with Some assms show ?thesis
      by (simp add: toBootstrap_step_def component_at_def)
  qed
qed

lemma fold_step_frame:
  "component_at d t i = Some x \<Longrightarrow> \<forall>r\<in>set rs. \<not> touches r t i \<Longrightarrow>
   component_at (fold toBootstrap_step rs d) t i = Some x"
  by (induction rs arbitrary: d) (simp_all add: step_frame)

lemma step_inserts:
  assumes rec: "classify uri = Some (Component t i)"
    and place: "value_at v p = Some (JObj fs)"
    and ref: "ref_of fs = Some u" "classify u = Some (Component t' i')"
    and extra: "AList.delete ''_ref'' fs \<noteq> []"
      "\<forall>gs\<in>set (ref_objects (JObj (AList.delete ''_ref'' fs))). bare gs"
    and same: "\<forall>gs\<in>set (ref_objects v). points_to gs t' i' \<longrightarrow>
        bare gs \<or> AList.delete ''_ref'' gs = AList.delete ''_ref'' fs"
  shows "component_at (toBootstrap_step (uri, v) d) t' i' = Some (JObj (AList.delete ''_ref'' fs))"
proof -
  let ?extra = "AList.delete ''_ref'' fs"
  have "strip_refs (JObj ?extra) = JObj ?extra"
    by (rule strip_refs_bare[OF extra(2)])
  then have plain: "map (\<lambda>(k, v). (k, strip_refs v)) ?extra = ?extra"
    by (simp add: ref_of_delete)
  have "fs \<in> set (ref_objects v)"
    by (rule value_at_ref_objects[OF place ref(1)])
  from ref_objects_denormalized[OF this ref(1) extra(1)]
  have mem: "(u, JObj ?extra) \<in> set (denormalized v)"
    by (simp add: plain)
  have all: "\<forall>r\<in>set (denormalized v).
      classify (fst r) = Some (Component t' i') \<longrightarrow> snd r = JObj ?extra"
  proof (intro ballI impI)
    fix r assume r: "r \<in> set (denormalized v)" "classify (fst r) = Some (Component t' i')"
    obtain u' d' where [simp]: "r = (u', d')" by (cases r)
    from denormalized_ref_objects[of u' d' v] r(1) obtain gs
      where gs: "gs \<in> set (ref_objects v)" "ref_of gs = Some u'"
        "AList.delete ''_ref'' gs \<noteq> []"
        "d' = JObj (map (\<lambda>(k, v). (k, strip_refs v)) (AList.delete ''_ref'' gs))"
      by auto
    from gs(2) r(2) have "points_to gs t' i'" by (simp add: points_to_def)
    with same gs(1) have "bare gs \<or> AList.delete ''_ref'' gs = ?extra" by blast
    with gs(3) have "AList.delete ''_ref'' gs = ?extra" by (auto simp: bare_delete)
    with gs(4) plain show "snd r = JObj ?extra" by simp
  qed
  from mem ref(2) have ex: "\<exists>r\<in>set (denormalized v). classify (fst r) = Some (Component t' i')"
    by force
  from fold_add_denormalized_writes[OF all disjI2[OF ex]] rec show ?thesis
    by (simp add: toBootstrap_step_def)
qed

lemma step_strips:
  assumes rec: "classify uri = Some (Component t i)"
    and place: "value_at v p = Some (JObj fs)" "outermost v p"
    and ref: "ref_of fs = Some u"
    and self: "\<forall>gs\<in>set (ref_objects v). points_to gs t i \<longrightarrow> bare gs"
  shows "\<exists>w. component_at (toBootstrap_step (uri, v) d) t i = Some w
     \<and> value_at w p = Some (JObj [(''_ref'', JStr u)])"
proof -
  have "component_at (add_component t i (strip_refs v) d) t i = Some (strip_refs v)"
    by (rule component_at_add_same)
  then have "component_at (fold add_denormalized (denormalized v)
      (add_component t i (strip_refs v) d)) t i = Some (strip_refs v)"
    using denormalized_not_touching[OF self] by (rule fold_add_denormalized_other)
  with rec have "component_at (toBootstrap_step (uri, v) d) t i = Some (strip_refs v)"
    by (simp add: toBootstrap_step_def)
  with strip_refs_at[OF place(1) ref place(2)] show ?thesis by blast
qed

text \<open>
  C10.  Let \<open>(uri, v)\<close> be the record of a component (or instance) \<open>(t, i)\<close> and let its
  value hold, at some place \<open>p\<close>, a reference \<open>fs\<close> to the component (or instance)
  \<open>(t', i')\<close> that carries fields beside \<open>_ref\<close>; let these fields hold bare references
  only (the inlining is one level deep), and let every other reference of the record to
  \<open>(t', i')\<close> be bare or carry the same fields.  Then, whatever records \<open>pre\<close> come before,
  and whatever records \<open>post\<close> come after that do not touch \<open>(t', i')\<close> (so also when no
  record of the sequence is the record of that component), the document \<open>toBootstrap\<close>
  builds has the entry \<open>(t', i')\<close>, and its data are exactly the fields the reference
  carried, without \<open>_ref\<close>.  Moreover, when the place lies inside no other reference,
  no reference of the record that carries fields points back at \<open>(t, i)\<close>, and \<open>post\<close> does not
  touch \<open>(t, i)\<close>, the entry \<open>(t, i)\<close> of the document holds at the place \<open>p\<close> the reference
  stripped to its \<open>_ref\<close>.
\<close>

theorem toBootstrap_inserts_denormalized:
  assumes "classify uri = Some (Component t i)"
    and "value_at v p = Some (JObj fs)"
    and "ref_of fs = Some u" and "classify u = Some (Component t' i')"
    and "AList.delete ''_ref'' fs \<noteq> []"
    and "\<forall>gs\<in>set (ref_objects (JObj (AList.delete ''_ref'' fs))). bare gs"
    and "\<forall>gs\<in>set (ref_objects v). points_to gs t' i' \<longrightarrow>
           bare gs \<or> AList.delete ''_ref'' gs = AList.delete ''_ref'' fs"
    and "\<forall>r\<in>set post. \<not> touches r t' i'"
  shows "component_at (toBootstrap (pre @ (uri, v) # post)) t' i'
           = Some (JObj (AList.delete ''_ref'' fs))
    \<and> (outermost v p \<and> (\<forall>gs\<in>set (ref_objects v). points_to gs t i \<longrightarrow> bare gs)
          \<and> (\<forall>r\<in>set post. \<not> touches r t i) \<longrightarrow>
        (\<exists>w. component_at (toBootstrap (pre @ (uri, v) # post)) t i = Some w
           \<and> value_at w p = Some (JObj [(''_ref'', JStr u)])))"
proof -
  let ?d = "fold toBootstrap_step pre empty_bootstrap"
  have "component_at (toBootstrap_step (uri, v) ?d) t' i'
      = Some (JObj (AList.delete ''_ref'' fs))"
    by (rule step_inserts[OF assms(1-7)])
  then have ins: "component_at (fold toBootstrap_step post (toBootstrap_step (uri, v) ?d)) t' i'
      = Some (JObj (AList.delete ''_ref'' fs))"
    using assms(8) by (rule fold_step_frame)
  have own: "\<exists>w. component_at (fold toBootstrap_step post (toBootstrap_step (uri, v) ?d)) t i
        = Some w \<and> value_at w p = Some (JObj [(''_ref'', JStr u)])"
    if "outermost v p" "\<forall>gs\<in>set (ref_objects v). points_to gs t i \<longrightarrow> bare gs"
      "\<forall>r\<in>set post. \<not> touches r t i"
  proof -
    from step_strips[OF assms(1,2) that(1) assms(3) that(2), of ?d] obtain w
      where w: "component_at (toBootstrap_step (uri, v) ?d) t i = Some w"
        "value_at w p = Some (JObj [(''_ref'', JStr u)])"
      by blast
    from fold_step_frame[OF w(1) that(3)] w(2) show ?thesis by blast
  qed
  from ins own show ?thesis
    by (simp add: toBootstrap_def)
qed

theorem toBootstrap_inserts_denormalized_witness:
  "classify ''/_components/a'' = Some (Component ''a'' None)
   \<and> value_at (snd (hd mixedDispatch)) [Key ''child'']
       = Some (JObj [(''_ref'', JStr ''/_components/b''), (''a'', JStr ''b'')])
   \<and> classify ''/_components/b'' = Some (Component ''b'' None)
   \<and> component_at (toBootstrap mixedDispatch) ''b'' None = Some (JObj [(''a'', JStr ''b'')])
   \<and> (\<exists>w. component_at (toBootstrap mixedDispatch) ''a'' None = Some w
          \<and> value_at w [Key ''child''] = Some (JObj [(''_ref'', JStr ''/_components/b'')]))
   \<and> value_at (snd (hd componentDispatch)) [Key ''content'', Index 0]
       = Some (JObj [(''_ref'', JStr ''/_components/paragraph''), (''text'', JStr ''empty'')])
   \<and> component_at (toBootstrap componentDispatch) ''paragraph'' None
       = Some (JObj [(''text'', JStr ''empty'')])
   \<and> (\<exists>w. component_at (toBootstrap componentDispatch) ''article'' None = Some w
          \<and> value_at w [Key ''content'', Index 0]
              = Some (JObj [(''_ref'', JStr ''/_components/paragraph'')]))"
proof -
  let ?fs = "[(''_ref'', JStr ''/_components/b''), (''a'', JStr ''b'')]"
  let ?v = "JObj [(''child'', JObj ?fs)]"
  have a: "classify ''/_components/a'' = Some (Component ''a'' None)"
    and b: "classify ''/_components/b'' = Some (Component ''b'' None)"
    by (simp_all add: classify_def)
  have place: "value_at ?v [Key ''child''] = Some (JObj ?fs)"
    by simp
  have ref: "ref_of ?fs = Some ''/_components/b''"
    by (simp add: ref_of_def)
  have extra: "AList.delete ''_ref'' ?fs \<noteq> []"
    "\<forall>gs\<in>set (ref_objects (JObj (AList.delete ''_ref'' ?fs))). bare gs"
    by (simp_all add: ref_of_def)
  have same: "\<forall>gs\<in>set (ref_objects ?v). points_to gs ''b'' None \<longrightarrow>
      bare gs \<or> AList.delete ''_ref'' gs = AList.delete ''_ref'' ?fs"
    by (simp add: ref_of_def)
  have frame: "\<forall>r\<in>set (tl mixedDispatch). \<not> touches r ''b'' None"
    "\<forall>r\<in>set (tl mixedDispatch). \<not> touches r ''a'' None"
    by (simp_all add: mixedDispatch_def touches_def classify_def)
  have own: "outermost ?v [Key ''child'']"
    "\<forall>gs\<in>set (ref_objects ?v). points_to gs ''a'' None \<longrightarrow> bare gs"
    by (simp_all add: ref_of_def points_to_def classify_def)
  have mixed: "mixedDispatch = [] @ (''/_components/a'', ?v) # tl mixedDispatch"
    by (simp add: mixedDispatch_def)
  from toBootstrap_inserts_denormalized[OF a place ref b extra same frame(1), of "[]"]
    own frame(2)
  have 1: "component_at (toBootstrap mixedDispatch) ''b'' None = Some (JObj [(''a'', JStr ''b'')])
    \<and> (\<exists>w. component_at (toBootstrap mixedDispatch) ''a'' None = Some w
          \<and> value_at w [Key ''child''] = Some (JObj [(''_ref'', JStr ''/_components/b'')]))"
    unfolding mixed[symmetric] by simp
  let ?gs = "[(''_ref'', JStr ''/_components/paragraph''), (''text'', JStr ''empty'')]"
  let ?w = "JObj [(''title'', JStr ''Empty''), (''content'', JArr [JObj ?gs])]"
  have art: "classify ''/_components/article'' = Some (Component ''article'' None)"
    and par: "classify ''/_components/paragraph'' = Some (Component ''paragraph'' None)"
    by (simp_all add: classify_def)
  have place2: "value_at ?w [Key ''content'', Index 0] = Some (JObj ?gs)"
    by simp
  have ref2: "ref_of ?gs = Some ''/_components/paragraph''"
    by (simp add: ref_of_def)
  have extra2: "AList.delete ''_ref'' ?gs \<noteq> []"
    "\<forall>gs\<in>set (ref_objects (JObj (AList.delete ''_ref'' ?gs))). bare gs"
    by (simp_all add: ref_of_def)
  have same2: "\<forall>gs\<in>set (ref_objects ?w). points_to gs ''paragraph'' None \<longrightarrow>
      bare gs \<or> AList.delete ''_ref'' gs = AList.delete ''_ref'' ?gs"
    by (simp add: ref_of_def)
  have frame2: "\<forall>r\<in>set (tl componentDispatch). \<not> touches r ''paragraph'' None"
    "\<forall>r\<in>set (tl componentDispatch). \<not> touches r ''article'' None"
    by (simp_all add: componentDispatch_def touches_def classify_def ref_of_def points_to_def)
  have own2: "outermost ?w [Key ''content'', Index 0]"
    "\<forall>gs\<in>set (ref_objects ?w). points_to gs ''article'' None \<longrightarrow> bare gs"
    by (simp_all add: ref_of_def points_to_def classify_def)
  have comp: "componentDispatch = [] @ (''/_components/article'', ?w) # tl componentDispatch"
    by (simp add: componentDispatch_def)
  from toBootstrap_inserts_denormalized[OF art place2 ref2 par extra2 same2 frame2(1),
      of "[]"] own2 frame2(2)
  have 2: "component_at (toBootstrap componentDispatch) ''paragraph'' None
       = Some (JObj [(''text'', JStr ''empty'')])
    \<and> (\<exists>w. component_at (toBootstrap componentDispatch) ''article'' None = Some w
          \<and> value_at w [Key ''content'', Index 0]
              = Some (JObj [(''_ref'', JStr ''/_components/paragraph'')]))"
    unfolding comp[symmetric] by simp
  have "value_at (snd (hd mixedDispatch)) [Key ''child''] = Some (JObj ?fs)"
    "value_at (snd (hd componentDispatch)) [Key ''content'', Index 0] = Some (JObj ?gs)"
    by (simp_all add: mixedDispatch_def componentDispatch_def)
  with a b 1 2 show ?thesis by blast
qed

end
